theory Spec2Isabelle
  imports Main
begin

section \<open>The robot execution failure parsing cell\<close>

text \<open>
  The one piece of hand-written parsing logic of the notebooks is the cell of
  \<^verbatim>\<open>ML_16_collaborative_filtering_recommender.ipynb\<close> that turns the lines of
  \<^verbatim>\<open>lp1.data\<close> into the lists \<^verbatim>\<open>X\<close> and \<^verbatim>\<open>y\<close>:
  \<^verbatim>\<open>
  X = [] # inputs
  y = [] # true values
  classes = {'normal':0, 'collision':1, 'obstruction':2, 'fr_collision':3}
  for i in range(len(lines) - 1):
      line = lines[i].strip()
      if line in classes.keys():
          features = [int(x) for x in lines[i+1].strip().split('\t')]
          X.append(features)
          y.append(classes[line])
  \<close>
  The cell works on the notebook's global variables, so it is modelled as a transformer of
  a record of these globals. An exception ends the cell and leaves the globals as they
  were when it was raised; the model returns the exception (if any) beside the globals.
  The loop temporaries \<^verbatim>\<open>i\<close>, \<^verbatim>\<open>line\<close> and \<^verbatim>\<open>features\<close> are read only inside the
  iteration that sets them and are not part of the record.

  A Python \<^verbatim>\<open>str\<close> is a sequence of code points; a \<^typ>\<open>string\<close> here is a list of
  code points below 256, one \<^typ>\<open>char\<close> each.
\<close>

subsection \<open>The string built-ins the cell calls\<close>

text \<open>
  \<^verbatim>\<open>str.isspace\<close> on one character, which is what \<^verbatim>\<open>str.strip()\<close> removes: below 256
  these are the code points 9 to 13, 28 to 32, 133 and 160.
\<close>

definition isspace :: "char \<Rightarrow> bool" where
  "isspace c =
     (let n = (of_char c :: nat)
      in (9 \<le> n \<and> n \<le> 13) \<or> (28 \<le> n \<and> n \<le> 32) \<or> n = 133 \<or> n = 160)"

text \<open>\<^verbatim>\<open>s.strip()\<close>: leading and trailing whitespace removed.\<close>

definition strip :: "string \<Rightarrow> string" where
  "strip s = rev (dropWhile isspace (rev (dropWhile isspace s)))"

text \<open>
  \<^verbatim>\<open>s.split('\t')\<close>: the pieces between tab characters, empty pieces kept; the result
  always has at least one piece.
\<close>

abbreviation TAB :: char where
  "TAB \<equiv> CHR 0x09"

fun split_tab :: "string \<Rightarrow> string list" where
  "split_tab [] = [[]]"
| "split_tab (c # cs) =
     (if c = TAB then [] # split_tab cs
      else (c # hd (split_tab cs)) # tl (split_tab cs))"

datatype error = ValueError | KeyError | IndexError

text \<open>
  \<^verbatim>\<open>int(s)\<close> on a string, base 10. Surrounding whitespace is skipped (here the code
  points 9 to 13, 32, 133 and 160: the separators 28 to 31 are whitespace for
  \<^verbatim>\<open>strip\<close> but not for \<^verbatim>\<open>int\<close>), then an optional single sign, then decimal digits
  that may be grouped by single underscores between digits. Anything else raises
  \<^verbatim>\<open>ValueError\<close>. Python integers are unbounded, and the notebook's Python (3.8.8)
  puts no limit on the number of digits.
\<close>

definition int_space :: "char \<Rightarrow> bool" where
  "int_space c =
     (let n = (of_char c :: nat)
      in (9 \<le> n \<and> n \<le> 13) \<or> n = 32 \<or> n = 133 \<or> n = 160)"

definition is_digit :: "char \<Rightarrow> bool" where
  "is_digit c = (let n = (of_char c :: nat) in 48 \<le> n \<and> n \<le> 57)"

definition digit_val :: "char \<Rightarrow> int" where
  "digit_val c = int (of_char c) - 48"

text \<open>The digits after the first one, with the value read so far.\<close>

fun more_digits :: "int \<Rightarrow> string \<Rightarrow> error + int" where
  "more_digits acc [] = Inr acc"
| "more_digits acc (c # cs) =
     (if is_digit c then more_digits (acc * 10 + digit_val c) cs
      else if c = CHR ''_'' then
        (case cs of
           [] \<Rightarrow> Inl ValueError
         | d # ds \<Rightarrow>
             if is_digit d then more_digits (acc * 10 + digit_val d) ds
             else Inl ValueError)
      else Inl ValueError)"

definition digits :: "string \<Rightarrow> error + int" where
  "digits s =
     (case s of
        [] \<Rightarrow> Inl ValueError
      | c # cs \<Rightarrow> if is_digit c then more_digits (digit_val c) cs else Inl ValueError)"

definition py_int :: "string \<Rightarrow> error + int" where
  "py_int s =
     (case rev (dropWhile int_space (rev (dropWhile int_space s))) of
        [] \<Rightarrow> Inl ValueError
      | c # cs \<Rightarrow>
          if c = CHR ''-'' then
            (case digits cs of Inl e \<Rightarrow> Inl e | Inr n \<Rightarrow> Inr (- n))
          else if c = CHR ''+'' then digits cs
          else digits (c # cs))"

text \<open>
  The list comprehension \<^verbatim>\<open>[int(x) for x in ts]\<close>: the first token that does not parse
  raises, and no list is built.
\<close>

fun int_each :: "string list \<Rightarrow> error + int list" where
  "int_each [] = Inr []"
| "int_each (t # ts) =
     (case py_int t of
        Inl e \<Rightarrow> Inl e
      | Inr n \<Rightarrow> (case int_each ts of Inl e \<Rightarrow> Inl e | Inr ns \<Rightarrow> Inr (n # ns)))"

text \<open>\<^verbatim>\<open>xs[i]\<close> for a non-negative index, and \<^verbatim>\<open>d[k]\<close> on a dictionary.\<close>

definition getitem :: "'a list \<Rightarrow> nat \<Rightarrow> error + 'a" where
  "getitem xs i = (if i < length xs then Inr (xs ! i) else Inl IndexError)"

definition dict_get :: "('k \<times> 'v) list \<Rightarrow> 'k \<Rightarrow> error + 'v" where
  "dict_get d k = (case map_of d k of None \<Rightarrow> Inl KeyError | Some v \<Rightarrow> Inr v)"

text \<open>\<^verbatim>\<open>range(n)\<close>: empty when \<open>n\<close> is zero or negative.\<close>

definition py_range :: "int \<Rightarrow> nat list" where
  "py_range n = [0..<nat n]"

subsection \<open>The cell\<close>

record globals =
  lines :: "string list"
  X :: "int list list"
  y :: "int list"
  classes :: "(string \<times> int) list"

text \<open>The dictionary literal, in the order it is written.\<close>

definition classes_literal :: "(string \<times> int) list" where
  "classes_literal =
     [(''normal'', 0), (''collision'', 1), (''obstruction'', 2), (''fr_collision'', 3)]"

text \<open>The expression \<^verbatim>\<open>lines[i+1].strip().split('\t')\<close> and the comprehension over it.\<close>

definition features :: "string \<Rightarrow> error + int list" where
  "features nxt = int_each (split_tab (strip nxt))"

text \<open>One iteration of the loop, for the index \<open>i\<close>.\<close>

definition loop_body :: "nat \<Rightarrow> globals \<Rightarrow> error option \<times> globals" where
  "loop_body i g =
     (case getitem (lines g) i of
        Inl e \<Rightarrow> (Some e, g)
      | Inr l \<Rightarrow>
          let line = strip l in
          if line \<in> set (map fst (classes g)) then
            (case getitem (lines g) (i + 1) of
               Inl e \<Rightarrow> (Some e, g)
             | Inr nxt \<Rightarrow>
                 (case features nxt of
                    Inl e \<Rightarrow> (Some e, g)
                  | Inr fs \<Rightarrow>
                      let g1 = g\<lparr>X := X g @ [fs]\<rparr> in
                      (case dict_get (classes g1) line of
                         Inl e \<Rightarrow> (Some e, g1)
                       | Inr c \<Rightarrow> (None, g1\<lparr>y := y g1 @ [c]\<rparr>))))
          else (None, g))"

text \<open>The \<^verbatim>\<open>for\<close> loop over a list of indices: an exception ends it.\<close>

fun for_loop :: "nat list \<Rightarrow> globals \<Rightarrow> error option \<times> globals" where
  "for_loop [] g = (None, g)"
| "for_loop (i # is) g =
     (case loop_body i g of
        (Some e, g') \<Rightarrow> (Some e, g')
      | (None, g') \<Rightarrow> for_loop is g')"

text \<open>The three assignments that open the cell.\<close>

definition cell_init :: "globals \<Rightarrow> globals" where
  "cell_init g = g\<lparr>X := [], y := [], classes := classes_literal\<rparr>"

definition cell :: "globals \<Rightarrow> error option \<times> globals" where
  "cell g =
     (let g0 = cell_init g
      in for_loop (py_range (int (length (lines g0)) - 1)) g0)"

subsection \<open>Label lines, label codes and the records of a line sequence\<close>

text \<open>
  The test \<^verbatim>\<open>line in classes.keys()\<close> and the lookup \<^verbatim>\<open>classes[line]\<close> of the loop, for
  the dictionary the cell assigns. The code of a line is read only where the line is a
  label line.
\<close>

definition is_label :: "string \<Rightarrow> bool" where
  "is_label l = (strip l \<in> set (map fst classes_literal))"

definition label_code :: "string \<Rightarrow> int" where
  "label_code l = projr (dict_get classes_literal (strip l))"

text \<open>
  The loop reads the lines two at a time: the line at \<open>i\<close> and, under a label, the
  line at \<open>i + 1\<close>. The same reading by recursion on the list: the exception raised (if
  any) and the (feature vector, code) pairs appended until then. It is shown below to be
  what the cell computes.
\<close>

fun records :: "string list \<Rightarrow> error option \<times> (int list \<times> int) list" where
  "records (a # b # rest) =
     (if is_label a then
        (case features b of
           Inl e \<Rightarrow> (Some e, [])
         | Inr fs \<Rightarrow> (fst (records (b # rest)), (fs, label_code a) # snd (records (b # rest))))
      else records (b # rest))"
| "records [a] = (None, [])"
| "records [] = (None, [])"

text \<open>The tab-separated tokens of a line, as the comprehension iterates over them.\<close>

definition tokens :: "string \<Rightarrow> string list" where
  "tokens b = split_tab (strip b)"

text \<open>
  Each line paired with the line immediately after it; the pairs whose first line is a
  label line; a data line the comprehension accepts; and a line sequence in which every
  label line that has a next line is followed by such a data line.
\<close>

definition adjacent :: "string list \<Rightarrow> (string \<times> string) list" where
  "adjacent ls = zip ls (tl ls)"

definition valid_data :: "string \<Rightarrow> bool" where
  "valid_data b = (case features b of Inl e \<Rightarrow> False | Inr fs \<Rightarrow> True)"

definition labelled :: "string list \<Rightarrow> (string \<times> string) list" where
  "labelled ls = filter (\<lambda>(a, b). is_label a) (adjacent ls)"

definition well_formed :: "string list \<Rightarrow> bool" where
  "well_formed ls = list_all (\<lambda>(a, b). is_label a \<longrightarrow> valid_data b) (adjacent ls)"

text \<open>
  The labelled pairs up to, and without, the first one whose data line the comprehension
  rejects: the pairs the loop gets through before it raises.
\<close>

definition collected :: "string list \<Rightarrow> (string \<times> string) list" where
  "collected ls = takeWhile (\<lambda>(a, b). valid_data b) (labelled ls)"

subsection \<open>Inputs and intermediate states\<close>

text \<open>
  The globals before the cell has run, with only \<^verbatim>\<open>lines\<close> read from the file. The
  cell assigns the other three names before it reads them.
\<close>

definition start :: "string list \<Rightarrow> globals" where
  "start ls = \<lparr>lines = ls, X = [], y = [], classes = []\<rparr>"

text \<open>The example inputs of the specification; the second one has spaces, the third tabs.\<close>

definition spec_example :: "string list" where
  "spec_example =
     [''normal'',
      ''-1'' @ TAB # ''-1'' @ TAB # ''63'' @ TAB # ''-3'' @ TAB # ''-1'' @ TAB # ''0'',
      ''collision'',
      ''1'' @ TAB # ''2'' @ TAB # ''3'' @ TAB # ''4'' @ TAB # ''5'' @ TAB # ''6'']"

definition spaced_example :: "string list" where
  "spaced_example = [''normal'', ''0 0 0'', ''collision'', ''1 1 1'', ''normal'', ''2 2 2'']"

definition tabbed_example :: "string list" where
  "tabbed_example =
     [''normal'', ''0'' @ TAB # ''0'' @ TAB # ''0'',
      ''collision'', ''1'' @ TAB # ''1'' @ TAB # ''1'',
      ''normal'', ''2'' @ TAB # ''2'' @ TAB # ''2'']"

text \<open>
  Lines as \<^verbatim>\<open>readlines()\<close> returns them, with the line ends and the leading tabs of
  the data file: the five lines the notebook prints as \<^verbatim>\<open>lines[:5]\<close>, then a second
  block; and a label line directly followed by another label line.
\<close>

definition file_example :: "string list" where
  "file_example =
     [''normal\<newline>'',
      TAB # ''-1'' @ TAB # ''-1'' @ TAB # ''63'' @ TAB # ''-3'' @ TAB # ''-1'' @ TAB # ''0\<newline>'',
      TAB # ''0'' @ TAB # ''0'' @ TAB # ''62'' @ TAB # ''-3'' @ TAB # ''-1'' @ TAB # ''0\<newline>'',
      TAB # ''-1'' @ TAB # ''-1'' @ TAB # ''61'' @ TAB # ''-3'' @ TAB # ''0'' @ TAB # ''0\<newline>'',
      TAB # ''-1'' @ TAB # ''-1'' @ TAB # ''63'' @ TAB # ''-2'' @ TAB # ''-1'' @ TAB # ''0\<newline>'',
      ''collision\<newline>'',
      TAB # ''-2'' @ TAB # ''4'' @ TAB # ''55'' @ TAB # ''-8'' @ TAB # ''3'' @ TAB # ''1\<newline>'']"

definition broken_example :: "string list" where
  "broken_example = [''normal\<newline>'', ''collision\<newline>'', TAB # ''1'' @ TAB # ''2\<newline>'']"

text \<open>Globals left by an earlier run on other lines, with \<^verbatim>\<open>lines\<close> read anew.\<close>

definition leftover :: globals where
  "leftover = \<lparr>lines = [''normal\<newline>'', ''7\<newline>''], X = [[9, 9]], y = [3], classes = [(''other'', 5)]\<rparr>"


text \<open>The cell stopped after its first \<open>k\<close> iterations.\<close>

definition after_iterations :: "nat \<Rightarrow> globals \<Rightarrow> error option \<times> globals" where
  "after_iterations k g =
     (let g0 = cell_init g
      in for_loop (take k (py_range (int (length (lines g0)) - 1))) g0)"

section \<open>The cell computes the records of its lines\<close>

lemma dict_get_label: "is_label l \<Longrightarrow> dict_get classes_literal (strip l) = Inr (label_code l)"
  by (auto simp: is_label_def label_code_def dict_get_def classes_literal_def)

lemma loop_body_step:
  assumes "classes g = classes_literal" "Suc k < length (lines g)"
  shows "loop_body k g =
     (if is_label (lines g ! k) then
        (case features (lines g ! Suc k) of
           Inl e \<Rightarrow> (Some e, g)
         | Inr fs \<Rightarrow> (None, g\<lparr>X := X g @ [fs], y := y g @ [label_code (lines g ! k)]\<rparr>))
      else (None, g))"
proof (cases "is_label (lines g ! k)")
  case True
  then have "strip (lines g ! k) \<in> set (map fst (classes g))"
    using assms(1) by (simp add: is_label_def)
  then show ?thesis
    using assms True
    by (simp add: loop_body_def getitem_def Let_def dict_get_label del: set_map split: sum.splits)
next
  case False
  then have "strip (lines g ! k) \<notin> set (map fst (classes g))"
    using assms(1) by (simp add: is_label_def)
  then show ?thesis
    using assms False
    by (simp add: loop_body_def getitem_def Let_def del: set_map)
qed

lemma for_loop_records:
  "classes g = classes_literal \<Longrightarrow> n = length (lines g) - 1 \<Longrightarrow>
   for_loop [k..<n] g =
     (fst (records (drop k (lines g))),
      g\<lparr>X := X g @ map fst (snd (records (drop k (lines g)))),
        y := y g @ map snd (snd (records (drop k (lines g))))\<rparr>)"
proof (induction "n - k" arbitrary: k g)
  case 0
  then have "length (drop k (lines g)) \<le> 1" by simp
  then have r: "records (drop k (lines g)) = (None, [])"
    by (cases "drop k (lines g)" rule: records.cases) auto
  from 0 have e: "[k..<n] = []" by simp
  show ?case unfolding r e by simp
next
  case (Suc m)
  then have k: "Suc k < length (lines g)" and kn: "k < n" by linarith+
  then have upt: "[k..<n] = k # [Suc k..<n]"
    by (simp add: upt_conv_Cons)
  define rest where "rest = drop (Suc (Suc k)) (lines g)"
  from k have d1: "drop (Suc k) (lines g) = lines g ! Suc k # rest"
    unfolding rest_def by (metis Cons_nth_drop_Suc)
  from k have d0: "drop k (lines g) = lines g ! k # lines g ! Suc k # rest"
    unfolding d1 [symmetric] by (metis Cons_nth_drop_Suc Suc_lessD)
  show ?case
  proof (cases "is_label (lines g ! k)")
    case False
    have "for_loop [k..<n] g = for_loop [Suc k..<n] g"
      unfolding upt using False Suc.prems(1) k by (simp add: loop_body_step)
    also have "\<dots> = (fst (records (drop (Suc k) (lines g))),
      g\<lparr>X := X g @ map fst (snd (records (drop (Suc k) (lines g)))),
        y := y g @ map snd (snd (records (drop (Suc k) (lines g))))\<rparr>)"
      using Suc.hyps(2) Suc.prems by (intro Suc.hyps(1)) auto
    also have "records (drop (Suc k) (lines g)) = records (drop k (lines g))"
      using False by (simp add: d0 d1)
    finally show ?thesis .
  next
    case True
    show ?thesis
    proof (cases "features (lines g ! Suc k)")
      case (Inl e)
      have "records (drop k (lines g)) = (Some e, [])"
        using True Inl by (simp add: d0)
      then show ?thesis unfolding upt using True Inl Suc.prems(1) k
        by (simp add: loop_body_step)
    next
      case (Inr fs)
      let ?g = "g\<lparr>X := X g @ [fs], y := y g @ [label_code (lines g ! k)]\<rparr>"
      have rec: "records (drop k (lines g)) =
          (fst (records (drop (Suc k) (lines g))),
           (fs, label_code (lines g ! k)) # snd (records (drop (Suc k) (lines g))))"
        using True Inr by (simp add: d0 d1)
      have "for_loop [k..<n] g = for_loop [Suc k..<n] ?g"
        unfolding upt using True Inr Suc.prems(1) k by (simp add: loop_body_step)
      also have "\<dots> = (fst (records (drop (Suc k) (lines ?g))),
        ?g\<lparr>X := X ?g @ map fst (snd (records (drop (Suc k) (lines ?g)))),
          y := y ?g @ map snd (snd (records (drop (Suc k) (lines ?g))))\<rparr>)"
        using Suc.hyps(2) Suc.prems by (intro Suc.hyps(1)) auto
      finally show ?thesis
        by (simp add: rec)
    qed
  qed
qed

lemma cell_records:
  "cell g =
     (fst (records (lines g)),
      g\<lparr>X := map fst (snd (records (lines g))),
        y := map snd (snd (records (lines g))),
        classes := classes_literal\<rparr>)"
proof -
  have "py_range (int (length (lines g)) - 1) = [0..<length (lines g) - 1]"
    by (simp add: py_range_def nat_diff_distrib')
  then show ?thesis
    using for_loop_records [of "cell_init g" "length (lines g) - 1" 0]
    by (simp add: cell_def cell_init_def)
qed

section \<open>Properties of the built-ins and of the records\<close>

lemma adjacent_simps [simp]:
  "adjacent [] = []" "adjacent [a] = []" "adjacent (a # b # rest) = (a, b) # adjacent (b # rest)"
  by (simp_all add: adjacent_def)

lemma more_digits_error: "more_digits acc s = Inl e \<Longrightarrow> e = ValueError"
  by (induction acc s rule: more_digits.induct) (auto split: if_splits list.splits)

lemma digits_error: "digits s = Inl e \<Longrightarrow> e = ValueError"
  by (auto simp: digits_def split: list.splits if_splits dest: more_digits_error)

lemma py_int_error: "py_int t = Inl e \<Longrightarrow> e = ValueError"
  by (auto simp: py_int_def split: list.splits if_splits sum.splits dest: digits_error)

lemma int_each_error: "int_each ts = Inl e \<Longrightarrow> e = ValueError"
  by (induction ts arbitrary: e) (auto split: sum.splits dest: py_int_error)

lemma features_error: "features b = Inl e \<Longrightarrow> e = ValueError"
  by (simp add: features_def int_each_error)

lemma int_each_Inr: "int_each ts = Inr ns \<longleftrightarrow> list_all2 (\<lambda>t n. py_int t = Inr n) ts ns"
proof (induction ts arbitrary: ns)
  case Nil
  then show ?case by auto
next
  case (Cons t ts)
  show ?case
  proof (cases ns)
    case Nil
    then show ?thesis by (auto split: sum.splits)
  next
    case (Cons m ms)
    then show ?thesis using Cons.IH [of ms] by (auto split: sum.splits)
  qed
qed

lemma int_each_bad: "t \<in> set ts \<Longrightarrow> py_int t = Inl e \<Longrightarrow> int_each ts = Inl ValueError"
proof (induction ts)
  case Nil
  then show ?case by simp
next
  case (Cons u us)
  then show ?case by (auto split: sum.splits dest: py_int_error int_each_error)
qed

lemma features_label: "is_label l \<Longrightarrow> features l = Inl ValueError"
  by (auto simp: is_label_def classes_literal_def features_def py_int_def digits_def
      is_digit_def int_space_def)


lemma records_ok_iff: "fst (records ls) = None \<longleftrightarrow> well_formed ls"
  by (induction ls rule: records.induct)
     (auto simp: well_formed_def valid_data_def split: sum.splits)

lemma records_stop:
  "is_label a \<Longrightarrow> features b = Inl e \<Longrightarrow>
   records (pre @ a # b # post) = (Some ValueError, snd (records (pre @ [a])))"
proof (induction pre rule: records.induct)
  case (1 p q rest)
  then show ?case by (auto split: sum.splits dest: features_error)
next
  case (2 p)
  then show ?case by (auto split: sum.splits dest: features_error simp: features_label)
next
  case 3
  then show ?case by (auto dest: features_error)
qed

lemma records_trailing:
  "is_label l \<Longrightarrow> snd (records (pre @ [l])) = snd (records pre)"
  by (induction pre rule: records.induct) (auto split: sum.splits simp: features_label)

lemma records_trailing_ok:
  "pre = [] \<or> \<not> is_label (last pre) \<Longrightarrow> records (pre @ [l]) = records pre"
  by (induction pre rule: records.induct) (auto split: sum.splits)

lemma records_skip:
  "\<not> is_label d \<Longrightarrow> pre = [] \<or> \<not> is_label (last pre) \<Longrightarrow>
   records (pre @ d # post) = records (pre @ post)"
proof (induction pre rule: records.induct)
  case (1 p q rest)
  then show ?case by (auto split: sum.splits)
next
  case (2 p)
  then show ?case by (cases post) auto
next
  case 3
  then show ?case by (cases post) auto
qed

lemma records_codes:
  "map snd (snd (records ls)) =
   take (length (snd (records ls))) (map (\<lambda>(a, b). label_code a) (labelled ls))"
  by (induction ls rule: records.induct) (auto simp: labelled_def split: sum.splits)

lemma features_tokens: "features b = int_each (tokens b)"
  by (simp add: features_def tokens_def)





lemma cell_X: "X (snd (cell g)) = map fst (snd (records (lines g)))"
  and cell_y: "y (snd (cell g)) = map snd (snd (records (lines g)))"
  and cell_err: "fst (cell g) = fst (records (lines g))"
  and cell_classes: "classes (snd (cell g)) = classes_literal"
  and cell_lines: "lines (snd (cell g)) = lines g"
  by (simp_all add: cell_records)

lemma cell_ok_iff: "fst (cell g) = None \<longleftrightarrow> well_formed (lines g)"
  by (simp add: cell_err records_ok_iff)


lemma records_exact:
  "list_all2 (\<lambda>(fs, c) (a, b). features b = Inr fs \<and> c = label_code a)
     (snd (records ls)) (take (length (snd (records ls))) (labelled ls))"
  by (induction ls rule: records.induct) (auto simp: labelled_def split: sum.splits)

lemma for_loop_snoc:
  "for_loop (js @ [i]) g =
     (case for_loop js g of (Some e, g') \<Rightarrow> (Some e, g') | (None, g') \<Rightarrow> loop_body i g')"
  by (induction js arbitrary: g) (auto split: prod.splits option.splits)

lemma dict_get_literal: "dict_get classes_literal k = Inr c \<Longrightarrow> c \<in> {0, 1, 2, 3}"
  by (auto simp: dict_get_def classes_literal_def split: if_splits)

lemma label_code_range: "is_label l \<Longrightarrow> label_code l \<in> {0, 1, 2, 3}"
  using dict_get_label dict_get_literal by blast

lemma loop_body_out_of_range:
  "\<not> Suc i < length (lines g) \<Longrightarrow> snd (loop_body i g) = g"
  by (simp add: loop_body_def getitem_def Let_def del: set_map)

lemma loop_body_cases:
  assumes "classes g = classes_literal"
  shows "snd (loop_body i g) = g \<or>
         (\<exists>fs c. c \<in> {0, 1, 2, 3} \<and>
            loop_body i g = (None, g\<lparr>X := X g @ [fs], y := y g @ [c]\<rparr>))"
proof (cases "Suc i < length (lines g)")
  case False
  then have "snd (loop_body i g) = g" by (rule loop_body_out_of_range)
  then show ?thesis by (rule disjI1)
next
  case True
  note eq = loop_body_step [OF assms True]
  show ?thesis
  proof (cases "is_label (lines g ! i)")
    case False
    with eq show ?thesis by simp
  next
    case lab: True
    show ?thesis
    proof (cases "features (lines g ! Suc i)")
      case (Inl e)
      with eq lab show ?thesis by simp
    next
      case (Inr fs)
      with eq lab have "loop_body i g =
          (None, g\<lparr>X := X g @ [fs], y := y g @ [label_code (lines g ! i)]\<rparr>)"
        by simp
      with label_code_range [OF lab] have "\<exists>fs c. c \<in> {0, 1, 2, 3} \<and>
            loop_body i g = (None, g\<lparr>X := X g @ [fs], y := y g @ [c]\<rparr>)"
        by (intro exI conjI)
      then show ?thesis by (rule disjI2)
    qed
  qed
qed

lemma loop_body_inv:
  assumes "classes g = classes_literal" "length (X g) = length (y g)" "set (y g) \<subseteq> {0, 1, 2, 3}"
  shows "classes (snd (loop_body i g)) = classes_literal
       \<and> length (X (snd (loop_body i g))) = length (y (snd (loop_body i g)))
       \<and> set (y (snd (loop_body i g))) \<subseteq> {0, 1, 2, 3}"
  using loop_body_cases [OF assms(1), of i]
proof (elim disjE exE conjE)
  assume "snd (loop_body i g) = g"
  with assms show ?thesis by simp
next
  fix fs c
  assume "c \<in> {0, 1, 2, 3}"
    and "loop_body i g = (None, g\<lparr>X := X g @ [fs], y := y g @ [c]\<rparr>)"
  with assms show ?thesis by simp
qed

lemma for_loop_inv:
  "classes g = classes_literal \<Longrightarrow> length (X g) = length (y g) \<Longrightarrow> set (y g) \<subseteq> {0, 1, 2, 3} \<Longrightarrow>
   classes (snd (for_loop js g)) = classes_literal
   \<and> length (X (snd (for_loop js g))) = length (y (snd (for_loop js g)))
   \<and> set (y (snd (for_loop js g))) \<subseteq> {0, 1, 2, 3}"
proof (induction js arbitrary: g)
  case Nil
  then show ?case by simp
next
  case (Cons j js)
  note inv = loop_body_inv [OF Cons.prems, of j]
  show ?case
  proof (cases "loop_body j g")
    case (Pair e g')
    show ?thesis
    proof (cases e)
      case None
      with Pair inv Cons.IH [of g'] show ?thesis by simp
    next
      case (Some err)
      with Pair inv show ?thesis by simp
    qed
  qed
qed

lemma labelled_simps:
  "labelled [] = []" "labelled [a] = []"
  "labelled (a # b # rest) = (if is_label a then (a, b) # labelled (b # rest) else labelled (b # rest))"
  by (simp_all add: labelled_def)

lemma records_collected:
  "records ls =
     (if well_formed ls then None else Some ValueError,
      map (\<lambda>(a, b). (projr (features b), label_code a)) (collected ls))"
proof (induction ls rule: records.induct)
  case (1 a b rest)
  show ?case
  proof (cases "is_label a")
    case False
    with 1 show ?thesis
      by (simp add: collected_def labelled_simps well_formed_def)
  next
    case True
    show ?thesis
    proof (cases "features b")
      case (Inl e)
      then have "e = ValueError" by (rule features_error)
      with True Inl show ?thesis
        by (simp add: collected_def labelled_simps well_formed_def valid_data_def)
    next
      case (Inr fs)
      with True 1 show ?thesis
        by (simp add: collected_def labelled_simps well_formed_def valid_data_def)
    qed
  qed
qed (simp_all add: collected_def labelled_simps well_formed_def)

lemma takeWhile_filter_length:
  "length (takeWhile P (filter Q xs)) \<le> length (filter (\<lambda>x. Q x \<and> P x) xs)"
  by (induction xs) auto

lemma collected_count:
  "length (collected ls) \<le> length (filter (\<lambda>(a, b). is_label a \<and> valid_data b) (adjacent ls))"
proof -
  have "(\<lambda>x. (case x of (a, b) \<Rightarrow> is_label a) \<and> (case x of (a, b) \<Rightarrow> valid_data b)) =
      (\<lambda>(a, b). is_label a \<and> valid_data b)"
    by auto
  with takeWhile_filter_length [of "\<lambda>(a, b). valid_data b" "\<lambda>(a, b). is_label a" "adjacent ls"]
  show ?thesis by (simp add: collected_def labelled_def)
qed

lemma well_formed_collected: "well_formed ls \<Longrightarrow> collected ls = labelled ls"
  unfolding collected_def
  by (rule takeWhile_eq_all_conv [THEN iffD2])
     (auto simp: labelled_def well_formed_def list_all_iff)

lemma well_formed_count:
  "well_formed ls \<Longrightarrow>
   filter (\<lambda>(a, b). is_label a \<and> valid_data b) (adjacent ls) = labelled ls"
  unfolding labelled_def
  by (intro filter_cong) (auto simp: well_formed_def list_all_iff)

lemmas run_defs =
  is_label_def label_code_def dict_get_def classes_literal_def features_def strip_def
  isspace_def py_int_def int_space_def digits_def is_digit_def digit_val_def

section \<open>The claims\<close>

subsection \<open>C1: one record per label line, up to the first rejected data line\<close>

text \<open>
  C1, as amended. The cell goes through the label lines that have a next line, in scan
  order, up to the first one whose next line the comprehension rejects; for each of them
  it appends the parsed next line to \<open>X\<close> and the code of the label to \<open>y\<close>. It ends
  without an exception when there is no rejected line, and with \<^verbatim>\<open>ValueError\<close> at the
  first one otherwise. The number of records is at most the number of label lines
  immediately followed by a valid data line, and equal to it when every label line that
  has a next line is followed by a valid data line; then every such label line has its
  record. A data line is valid when each of its tab-separated tokens is accepted by
  \<^verbatim>\<open>int\<close>.
\<close>

theorem records_of_labels:
  "cell g =
     (if well_formed (lines g) then None else Some ValueError,
      g\<lparr>X := map (\<lambda>(a, b). projr (features b)) (collected (lines g)),
        y := map (\<lambda>(a, b). label_code a) (collected (lines g)),
        classes := classes_literal\<rparr>)
   \<and> length (X (snd (cell g))) \<le>
       length (filter (\<lambda>(a, b). is_label a \<and> valid_data b) (adjacent (lines g)))
   \<and> (well_formed (lines g) \<longrightarrow>
        collected (lines g) = labelled (lines g)
        \<and> length (X (snd (cell g))) =
            length (filter (\<lambda>(a, b). is_label a \<and> valid_data b) (adjacent (lines g))))"
proof -
  have m: "map (fst \<circ> (\<lambda>(a, b). (projr (features b), label_code a))) (collected (lines g)) =
      map (\<lambda>(a, b). projr (features b)) (collected (lines g))"
    "map (snd \<circ> (\<lambda>(a, b). (projr (features b), label_code a))) (collected (lines g)) =
      map (\<lambda>(a, b). label_code a) (collected (lines g))"
    by (auto intro: map_cong)
  have c: "cell g =
     (if well_formed (lines g) then None else Some ValueError,
      g\<lparr>X := map (\<lambda>(a, b). projr (features b)) (collected (lines g)),
        y := map (\<lambda>(a, b). label_code a) (collected (lines g)),
        classes := classes_literal\<rparr>)"
    by (simp add: cell_records records_collected m)
  have l: "length (X (snd (cell g))) = length (collected (lines g))"
    by (simp add: c)
  show ?thesis
    using c collected_count [of "lines g"]
    by (simp add: l well_formed_collected well_formed_count)
qed

text \<open>
  On the lines of the data file, with their line ends and leading tabs, both blocks give
  a record. On two adjacent label lines the cell raises at the first.
\<close>

theorem records_of_labels_witness:
  "well_formed file_example
   \<and> cell (start file_example) =
       (None,
        \<lparr>lines = file_example,
         X = [[-1, -1, 63, -3, -1, 0], [-2, 4, 55, -8, 3, 1]],
         y = [0, 1],
         classes = classes_literal\<rparr>)
   \<and> length (filter (\<lambda>(a, b). is_label a \<and> valid_data b) (adjacent file_example)) = 2
   \<and> \<not> well_formed broken_example
   \<and> cell (start broken_example) =
       (Some ValueError,
        \<lparr>lines = broken_example, X = [], y = [], classes = classes_literal\<rparr>)"
proof -
  have wf: "well_formed file_example" "\<not> well_formed broken_example"
    by (simp_all add: well_formed_def valid_data_def file_example_def broken_example_def run_defs)
  have col: "map (\<lambda>(a, b). projr (features b)) (collected file_example) =
      [[-1, -1, 63, -3, -1, 0], [-2, 4, 55, -8, 3, 1]]"
    "map (\<lambda>(a, b). label_code a) (collected file_example) = [0, 1]"
    "collected broken_example = []"
    by (simp_all add: collected_def labelled_def valid_data_def file_example_def
        broken_example_def run_defs)
  have l: "lines (start file_example) = file_example" "lines (start broken_example) = broken_example"
    by (simp_all add: start_def)
  note t1 = records_of_labels [of "start file_example", unfolded l]
  note t2 = records_of_labels [of "start broken_example", unfolded l]
  from t1 wf(1) have c1: "cell (start file_example) =
       (None,
        \<lparr>lines = file_example,
         X = [[-1, -1, 63, -3, -1, 0], [-2, 4, 55, -8, 3, 1]],
         y = [0, 1],
         classes = classes_literal\<rparr>)"
    by (simp add: col start_def)
  from t1 wf(1) have "length (X (snd (cell (start file_example)))) =
      length (filter (\<lambda>(a, b). is_label a \<and> valid_data b) (adjacent file_example))"
    by blast
  then have n1: "length (filter (\<lambda>(a, b). is_label a \<and> valid_data b) (adjacent file_example)) = 2"
    by (simp add: c1)
  from t2 wf(2) have c2: "cell (start broken_example) =
       (Some ValueError,
        \<lparr>lines = broken_example, X = [], y = [], classes = classes_literal\<rparr>)"
    by (simp add: col start_def)
  from wf c1 n1 c2 show ?thesis by simp
qed

text \<open>
  As stated, the claim has one record for every label line followed by a valid data line.
  In \<open>broken_example\<close> the label \<open>collision\<close> is followed by a valid data line, but the
  cell has raised \<^verbatim>\<open>ValueError\<close> on the label line before it and \<open>X\<close> is empty.
\<close>

theorem records_of_labels_counterexample:
  "fst (cell (start broken_example)) = Some ValueError
   \<and> X (snd (cell (start broken_example))) = []
   \<and> length (filter (\<lambda>(a, b). is_label a \<and> valid_data b) (adjacent broken_example)) = 1"
  by (simp add: cell_X cell_err start_def valid_data_def broken_example_def run_defs)

subsection \<open>C2: the worked example\<close>

text \<open>
  C2, as amended. On the four example lines (two labels, each followed by six
  tab-separated integers) the cell ends without an exception with
  \<open>X = [[-1,-1,63,-3,-1,0], [1,2,3,4,5,6]]\<close> and \<open>y = [0, 1]\<close>, whatever \<open>X\<close>, \<open>y\<close>
  and \<open>classes\<close> held before; \<open>classes\<close> is the dictionary literal with all four
  entries, not only the two labels that occur in the input.
\<close>

theorem spec_example_result:
  "cell \<lparr>lines = spec_example, X = x0, y = y0, classes = c0\<rparr> =
     (None,
      \<lparr>lines = spec_example,
       X = [[-1, -1, 63, -3, -1, 0], [1, 2, 3, 4, 5, 6]],
       y = [0, 1],
       classes = [(''normal'', 0), (''collision'', 1), (''obstruction'', 2), (''fr_collision'', 3)]\<rparr>)"
proof -
  have "records spec_example =
      (None, [([-1, -1, 63, -3, -1, 0], 0), ([1, 2, 3, 4, 5, 6], 1)])"
    by (simp add: spec_example_def run_defs)
  then show ?thesis
    by (simp add: cell_records classes_literal_def)
qed

text \<open>
  The claim as stated gives the label dictionary as exactly \<open>{normal: 0, collision: 1}\<close>.
  After the cell the dictionary also maps \<open>obstruction\<close>, so the two differ.
\<close>

theorem spec_example_dictionary_counterexample:
  "map_of (classes (snd (cell (start spec_example)))) \<noteq>
   map_of [(''normal'', 0), (''collision'', 1)]"
proof
  assume "map_of (classes (snd (cell (start spec_example)))) =
      map_of [(''normal'', 0), (''collision'', 1)]"
  then have "map_of (classes (snd (cell (start spec_example)))) ''obstruction'' =
      map_of [(''normal'', 0), (''collision'', 1)] ''obstruction''"
    by simp
  then show False
    by (simp add: cell_records classes_literal_def)
qed

subsection \<open>C3: where the label codes come from\<close>

text \<open>
  C3, as amended. The codes are those of the dictionary literal, whatever the order in
  which the labels occur: after the cell \<open>classes\<close> is the literal, and \<open>y\<close> is an initial
  segment of the literal's codes of the label lines that have a next line, in scan order.
  With tabs between the fields the six-line example gives three records with the codes
  \<open>[0, 1, 0]\<close>.
\<close>

theorem codes_fixed_by_literal:
  "classes (snd (cell g)) =
     [(''normal'', 0), (''collision'', 1), (''obstruction'', 2), (''fr_collision'', 3)]
   \<and> y (snd (cell g)) =
       take (length (y (snd (cell g)))) (map (\<lambda>(a, b). label_code a) (labelled (lines g)))
   \<and> label_code ''normal'' = 0 \<and> label_code ''collision'' = 1
   \<and> label_code ''obstruction'' = 2 \<and> label_code ''fr_collision'' = 3
   \<and> cell (start tabbed_example) =
       (None,
        \<lparr>lines = tabbed_example,
         X = [[0, 0, 0], [1, 1, 1], [2, 2, 2]],
         y = [0, 1, 0],
         classes = classes_literal\<rparr>)"
proof -
  have "y (snd (cell g)) =
       take (length (y (snd (cell g)))) (map (\<lambda>(a, b). label_code a) (labelled (lines g)))"
    unfolding cell_y length_map by (rule records_codes)
  moreover have "records tabbed_example =
      (None, [([0, 0, 0], 0), ([1, 1, 1], 1), ([2, 2, 2], 0)])"
    by (simp add: tabbed_example_def run_defs)
  then have "cell (start tabbed_example) =
       (None,
        \<lparr>lines = tabbed_example,
         X = [[0, 0, 0], [1, 1, 1], [2, 2, 2]],
         y = [0, 1, 0],
         classes = classes_literal\<rparr>)"
    by (simp add: cell_records start_def)
  moreover have "label_code ''normal'' = 0 \<and> label_code ''collision'' = 1
      \<and> label_code ''obstruction'' = 2 \<and> label_code ''fr_collision'' = 3"
    by (simp add: run_defs)
  ultimately show ?thesis
    by (simp add: cell_classes classes_literal_def)
qed

text \<open>
  As stated, the claim fails twice. A first label \<open>collision\<close> gets the code 1, not 0; and
  the example as printed, with spaces between the fields, has one tab-separated token
  \<open>0 0 0\<close> per data line, which \<^verbatim>\<open>int\<close> rejects: the cell raises \<^verbatim>\<open>ValueError\<close> at the
  first label and no record is collected.
\<close>

theorem first_occurrence_counterexample:
  "y (snd (cell (start [''collision'', ''7'']))) = [1]
   \<and> fst (cell (start spaced_example)) = Some ValueError
   \<and> X (snd (cell (start spaced_example))) = []"
  by (simp add: cell_X cell_y cell_err start_def spaced_example_def run_defs)

subsection \<open>C4: a label line without a data line after it\<close>

text \<open>
  C4, as amended. A label line followed by a line the comprehension rejects ends the
  cell with \<^verbatim>\<open>ValueError\<close>: \<open>X\<close> and \<open>y\<close> are left with the records collected before that
  label, none is appended for it or for anything after it. A label line is such a rejected
  line, so a label line directly followed by another label line is this case. A line that
  is not a label line and does not come immediately after a label line is skipped: the
  outcome is the same as without it.
\<close>

theorem label_without_data:
  "(is_label a \<and> \<not> valid_data b \<longrightarrow>
      fst (cell (g\<lparr>lines := pre @ a # b # post\<rparr>)) = Some ValueError
      \<and> X (snd (cell (g\<lparr>lines := pre @ a # b # post\<rparr>))) = X (snd (cell (g\<lparr>lines := pre @ [a]\<rparr>)))
      \<and> y (snd (cell (g\<lparr>lines := pre @ a # b # post\<rparr>))) = y (snd (cell (g\<lparr>lines := pre @ [a]\<rparr>))))
   \<and> (is_label b \<longrightarrow> \<not> valid_data b)
   \<and> (\<not> is_label d \<and> (pre = [] \<or> \<not> is_label (last pre)) \<longrightarrow>
      fst (cell (g\<lparr>lines := pre @ d # post\<rparr>)) = fst (cell (g\<lparr>lines := pre @ post\<rparr>))
      \<and> X (snd (cell (g\<lparr>lines := pre @ d # post\<rparr>))) = X (snd (cell (g\<lparr>lines := pre @ post\<rparr>)))
      \<and> y (snd (cell (g\<lparr>lines := pre @ d # post\<rparr>))) = y (snd (cell (g\<lparr>lines := pre @ post\<rparr>))))"
proof (intro conjI impI)
  assume h: "is_label a \<and> \<not> valid_data b"
  then obtain e where "features b = Inl e"
    by (auto simp: valid_data_def split: sum.splits)
  with h have r: "records (pre @ a # b # post) = (Some ValueError, snd (records (pre @ [a])))"
    by (simp add: records_stop)
  show "fst (cell (g\<lparr>lines := pre @ a # b # post\<rparr>)) = Some ValueError"
    by (simp add: cell_err r)
  show "X (snd (cell (g\<lparr>lines := pre @ a # b # post\<rparr>))) = X (snd (cell (g\<lparr>lines := pre @ [a]\<rparr>)))"
    by (simp add: cell_X r)
  show "y (snd (cell (g\<lparr>lines := pre @ a # b # post\<rparr>))) = y (snd (cell (g\<lparr>lines := pre @ [a]\<rparr>)))"
    by (simp add: cell_y r)
next
  assume "is_label b"
  then show "\<not> valid_data b"
    by (simp add: valid_data_def features_label)
next
  assume h: "\<not> is_label d \<and> (pre = [] \<or> \<not> is_label (last pre))"
  then have r: "records (pre @ d # post) = records (pre @ post)"
    by (simp add: records_skip)
  show "fst (cell (g\<lparr>lines := pre @ d # post\<rparr>)) = fst (cell (g\<lparr>lines := pre @ post\<rparr>))"
    by (simp add: cell_err r)
  show "X (snd (cell (g\<lparr>lines := pre @ d # post\<rparr>))) = X (snd (cell (g\<lparr>lines := pre @ post\<rparr>)))"
    by (simp add: cell_X r)
  show "y (snd (cell (g\<lparr>lines := pre @ d # post\<rparr>))) = y (snd (cell (g\<lparr>lines := pre @ post\<rparr>)))"
    by (simp add: cell_y r)
qed

text \<open>
  An instance with one record collected before the two adjacent label lines, and a data
  line \<open>5\<close> that follows another data line.
\<close>

theorem label_without_data_witness:
  "is_label ''normal'' \<and> \<not> valid_data ''collision'' \<and> is_label ''collision''
   \<and> \<not> is_label ''5'' \<and> \<not> is_label (last [''obstruction'', ''7''])
   \<and> fst (cell (start [''obstruction'', ''7'', ''normal'', ''collision'', ''normal'', ''1''])) = Some ValueError
   \<and> X (snd (cell (start [''obstruction'', ''7'', ''normal'', ''collision'', ''normal'', ''1'']))) = [[7]]
   \<and> X (snd (cell (start [''obstruction'', ''7'', ''normal'']))) = [[7]]
   \<and> y (snd (cell (start [''obstruction'', ''7'', ''normal'', ''collision'', ''normal'', ''1'']))) = [2]
   \<and> cell (start [''obstruction'', ''7'', ''5'', ''normal'', ''1'']) =
       (None, \<lparr>lines = [''obstruction'', ''7'', ''5'', ''normal'', ''1''],
          X = [[7], [1]], y = [2, 0], classes = classes_literal\<rparr>)
   \<and> cell (start [''obstruction'', ''7'', ''normal'', ''1'']) =
       (None, \<lparr>lines = [''obstruction'', ''7'', ''normal'', ''1''],
          X = [[7], [1]], y = [2, 0], classes = classes_literal\<rparr>)"
proof -
  have h: "is_label ''normal''" "\<not> valid_data ''collision''" "is_label ''collision''"
    "\<not> is_label ''5''" "\<not> is_label (last [''obstruction'', ''7''])"
    by (simp_all add: valid_data_def run_defs)
  have r: "cell (start [''obstruction'', ''7'', ''normal'', ''1'']) =
       (None, \<lparr>lines = [''obstruction'', ''7'', ''normal'', ''1''],
          X = [[7], [1]], y = [2, 0], classes = classes_literal\<rparr>)"
    "X (snd (cell (start [''obstruction'', ''7'', ''normal'']))) = [[7]]"
    "y (snd (cell (start [''obstruction'', ''7'', ''normal'']))) = [2]"
    by (simp_all add: cell_records start_def run_defs)
  have l: "lines (snd (cell (start [''obstruction'', ''7'', ''5'', ''normal'', ''1'']))) =
      [''obstruction'', ''7'', ''5'', ''normal'', ''1'']"
    "classes (snd (cell (start [''obstruction'', ''7'', ''5'', ''normal'', ''1'']))) = classes_literal"
    by (simp_all add: cell_lines cell_classes start_def)
  have eq: "\<And>p. p = (fst p, \<lparr>lines = lines (snd p), X = X (snd p), y = y (snd p), classes = classes (snd p)\<rparr>)"
    by (simp add: prod_eq_iff)
  from label_without_data
    [where a = "''normal''" and b = "''collision''" and g = "start []"
       and pre = "[''obstruction'', ''7'']" and post = "[''normal'', ''1'']" and d = "''5''"] h r l
  show ?thesis
    by (subst (2) eq) (simp add: start_def)
qed

text \<open>
  As stated, the claim has the first of two adjacent label lines skipped and the parse go
  on. The cell raises instead, and the record of the second label is never collected.
\<close>

theorem label_without_data_counterexample:
  "cell (start [''normal'', ''collision'', ''1'']) =
     (Some ValueError,
      \<lparr>lines = [''normal'', ''collision'', ''1''], X = [], y = [], classes = classes_literal\<rparr>)"
  by (simp add: cell_records start_def run_defs)

subsection \<open>C5: the number of fields of a data line\<close>




subsection \<open>C6: integer and floating-point fields\<close>




subsection \<open>C7: running the cell again\<close>

text \<open>
  C7, as amended. The outcome of the cell is a function of \<open>lines\<close> alone: the exception
  (if any) is the one of a run on fresh globals, and the globals after the cell are those
  before it with \<open>X\<close>, \<open>y\<close> and \<open>classes\<close> rebound to what a run on fresh globals gives.
  So whatever \<open>X\<close>, \<open>y\<close> and \<open>classes\<close> hold before does not matter and is overwritten;
  running the cell on the globals it left gives the same outcome again; and \<open>lines\<close> is
  left as it was.
\<close>

theorem rerun_from_scratch:
  "fst (cell g) = fst (cell (start (lines g)))
   \<and> snd (cell g) =
       g\<lparr>X := X (snd (cell (start (lines g)))),
         y := y (snd (cell (start (lines g)))),
         classes := classes (snd (cell (start (lines g))))\<rparr>
   \<and> cell (g\<lparr>X := x', y := y', classes := c'\<rparr>) = cell g
   \<and> cell (snd (cell g)) = cell g
   \<and> lines (snd (cell g)) = lines g"
proof -
  have a: "\<And>x' y' c'. cell (g\<lparr>X := x', y := y', classes := c'\<rparr>) = cell g"
    by (simp add: cell_def cell_init_def)
  have s: "snd (cell g) = g\<lparr>X := X (snd (cell g)), y := y (snd (cell g)), classes := classes_literal\<rparr>"
    by (simp add: cell_records)
  then have r: "cell (snd (cell g)) = cell g"
    using a by metis
  have f: "fst (cell g) = fst (cell (start (lines g)))"
    "X (snd (cell g)) = X (snd (cell (start (lines g))))"
    "y (snd (cell g)) = y (snd (cell (start (lines g))))"
    "classes (snd (cell (start (lines g)))) = classes_literal"
    by (simp_all add: cell_records start_def)
  have "snd (cell g) =
       g\<lparr>X := X (snd (cell (start (lines g)))),
         y := y (snd (cell (start (lines g)))),
         classes := classes (snd (cell (start (lines g))))\<rparr>"
    using s by (simp only: f)
  with f(1) a r show ?thesis
    by (simp add: cell_lines)
qed

text \<open>
  As stated, the claim has a run leave the state of an earlier run unmodified. The cell
  rebinds \<open>X\<close>, \<open>y\<close> and \<open>classes\<close>: what an earlier run left in them is gone.
\<close>

theorem leftover_overwritten_counterexample:
  "snd (cell leftover) =
     \<lparr>lines = [''normal\<newline>'', ''7\<newline>''], X = [[7]], y = [0], classes = classes_literal\<rparr>
   \<and> X (snd (cell leftover)) \<noteq> X leftover
   \<and> y (snd (cell leftover)) \<noteq> y leftover
   \<and> classes (snd (cell leftover)) \<noteq> classes leftover"
  by (simp add: cell_records leftover_def run_defs)

subsection \<open>C8: a label line at the end of the input\<close>

text \<open>
  C8. A label line that is the last line adds no record: \<open>X\<close> and \<open>y\<close> are as they are
  without that line. When the line before it is not a label line the whole outcome is
  the same; when it is one, that earlier label finds the trailing label in the place of
  its data line and the cell ends with \<^verbatim>\<open>ValueError\<close>, with \<open>X\<close> and \<open>y\<close> still as
  without the trailing line.
\<close>

theorem trailing_label:
  assumes "is_label l"
  shows "X (snd (cell (g\<lparr>lines := pre @ [l]\<rparr>))) = X (snd (cell (g\<lparr>lines := pre\<rparr>)))
       \<and> y (snd (cell (g\<lparr>lines := pre @ [l]\<rparr>))) = y (snd (cell (g\<lparr>lines := pre\<rparr>)))
       \<and> (pre = [] \<or> \<not> is_label (last pre) \<longrightarrow>
            fst (cell (g\<lparr>lines := pre @ [l]\<rparr>)) = fst (cell (g\<lparr>lines := pre\<rparr>)))"
  using assms by (simp add: cell_X cell_y cell_err records_trailing records_trailing_ok)

text \<open>A trailing \<open>collision\<close> after one complete record.\<close>

theorem trailing_label_witness:
  "is_label ''collision'' \<and> \<not> is_label (last [''normal'', ''3''])
   \<and> X (snd (cell (start [''normal'', ''3'', ''collision'']))) = [[3]]
   \<and> y (snd (cell (start [''normal'', ''3'', ''collision'']))) = [0]
   \<and> fst (cell (start [''normal'', ''3'', ''collision''])) = None
   \<and> cell (start [''normal'', ''3'']) =
       (None, \<lparr>lines = [''normal'', ''3''], X = [[3]], y = [0], classes = classes_literal\<rparr>)"
proof -
  have h: "is_label ''collision''" "\<not> is_label (last [''normal'', ''3''])"
    by (simp_all add: run_defs)
  have r: "cell (start [''normal'', ''3'']) =
       (None, \<lparr>lines = [''normal'', ''3''], X = [[3]], y = [0], classes = classes_literal\<rparr>)"
    by (simp add: cell_records start_def run_defs)
  from trailing_label [where l = "''collision''" and g = "start []" and pre = "[''normal'', ''3'']"] h r
  show ?thesis
    by (simp add: start_def)
qed

subsection \<open>C9: no default value for a token that does not parse\<close>

text \<open>
  C9. Every record in \<open>X\<close> is, position by position, the list of the values \<^verbatim>\<open>int\<close>
  returns on the tokens of the data line after the corresponding label line: no number in
  a record stands for a token that did not parse. A data line after a label line with a
  token that \<^verbatim>\<open>int\<close> rejects ends the cell with \<^verbatim>\<open>ValueError\<close>, and \<open>X\<close> holds only the
  records collected before that label.
\<close>

theorem no_default_value:
  "list_all2 (\<lambda>fs (a, b). list_all2 (\<lambda>t n. py_int t = Inr n) (tokens b) fs)
     (X (snd (cell g))) (take (length (X (snd (cell g)))) (labelled (lines g)))
   \<and> (is_label a \<and> t \<in> set (tokens b) \<and> py_int t = Inl e \<longrightarrow>
        fst (cell (g\<lparr>lines := pre @ a # b # post\<rparr>)) = Some ValueError
        \<and> X (snd (cell (g\<lparr>lines := pre @ a # b # post\<rparr>))) =
            X (snd (cell (g\<lparr>lines := pre @ [a]\<rparr>))))"
proof (intro conjI impI)
  have "list_all2 (\<lambda>r p. (case p of (a, b) \<Rightarrow> list_all2 (\<lambda>t n. py_int t = Inr n) (tokens b) (fst r)))
     (snd (records (lines g))) (take (length (snd (records (lines g)))) (labelled (lines g)))"
    using records_exact [of "lines g"]
    by (rule list_all2_mono) (auto simp: features_tokens int_each_Inr)
  then show "list_all2 (\<lambda>fs (a, b). list_all2 (\<lambda>t n. py_int t = Inr n) (tokens b) fs)
     (X (snd (cell g))) (take (length (X (snd (cell g)))) (labelled (lines g)))"
    by (simp add: cell_X list_all2_map1)
next
  assume h: "is_label a \<and> t \<in> set (tokens b) \<and> py_int t = Inl e"
  then have "features b = Inl ValueError"
    by (auto simp: features_tokens intro: int_each_bad)
  with h have r: "records (pre @ a # b # post) = (Some ValueError, snd (records (pre @ [a])))"
    by (simp add: records_stop)
  show "fst (cell (g\<lparr>lines := pre @ a # b # post\<rparr>)) = Some ValueError"
    by (simp add: cell_err r)
  show "X (snd (cell (g\<lparr>lines := pre @ a # b # post\<rparr>))) =
            X (snd (cell (g\<lparr>lines := pre @ [a]\<rparr>)))"
    by (simp add: cell_X r)
qed

text \<open>A data line with the token \<open>?\<close> after one complete record.\<close>

theorem no_default_value_witness:
  "is_label ''normal'' \<and> ''?'' \<in> set (tokens (''1'' @ TAB # ''?'')) \<and> py_int ''?'' = Inl ValueError
   \<and> fst (cell (start [''collision'', ''4'', ''normal'', ''1'' @ TAB # ''?'', ''5''])) = Some ValueError
   \<and> X (snd (cell (start [''collision'', ''4'', ''normal'', ''1'' @ TAB # ''?'', ''5'']))) = [[4]]"
proof -
  have h: "is_label ''normal''" "''?'' \<in> set (tokens (''1'' @ TAB # ''?''))"
    "py_int ''?'' = Inl ValueError"
    by (simp_all add: tokens_def run_defs)
  have r: "X (snd (cell (start [''collision'', ''4'', ''normal'']))) = [[4]]"
    by (simp add: cell_X start_def run_defs)
  from no_default_value
    [where a = "''normal''" and t = "''?''" and b = "''1'' @ TAB # ''?''" and e = ValueError
       and g = "start []" and pre = "[''collision'', ''4'']" and post = "[''5'']"] h r
  show ?thesis
    by (simp add: start_def)
qed

subsection \<open>C10: the two lists grow together\<close>

text \<open>
  C10. After any number of iterations \<open>X\<close> and \<open>y\<close> have the same length and every code
  in \<open>y\<close> is one of 0, 1, 2, 3; one more iteration leaves both lists as they are or
  appends one element to each; and after all iterations the state is that of the cell.
\<close>

theorem lists_in_step:
  "length (X (snd (after_iterations k g))) = length (y (snd (after_iterations k g)))
   \<and> set (y (snd (after_iterations k g))) \<subseteq> {0, 1, 2, 3}
   \<and> ((X (snd (after_iterations (Suc k) g)) = X (snd (after_iterations k g))
        \<and> y (snd (after_iterations (Suc k) g)) = y (snd (after_iterations k g)))
      \<or> (\<exists>fs c. X (snd (after_iterations (Suc k) g)) = X (snd (after_iterations k g)) @ [fs]
            \<and> y (snd (after_iterations (Suc k) g)) = y (snd (after_iterations k g)) @ [c]))
   \<and> after_iterations (length (lines g)) g = cell g"
proof -
  define js where "js = py_range (int (length (lines (cell_init g))) - 1)"
  have ai: "\<And>n. after_iterations n g = for_loop (take n js) (cell_init g)"
    by (simp add: after_iterations_def js_def Let_def)
  have init: "classes (cell_init g) = classes_literal"
    "length (X (cell_init g)) = length (y (cell_init g))"
    "set (y (cell_init g)) \<subseteq> {0, 1, 2, 3}"
    by (simp_all add: cell_init_def)
  note inv = for_loop_inv [OF init]
  have step: "(X (snd (after_iterations (Suc k) g)) = X (snd (after_iterations k g))
        \<and> y (snd (after_iterations (Suc k) g)) = y (snd (after_iterations k g)))
      \<or> (\<exists>fs c. X (snd (after_iterations (Suc k) g)) = X (snd (after_iterations k g)) @ [fs]
            \<and> y (snd (after_iterations (Suc k) g)) = y (snd (after_iterations k g)) @ [c])"
  proof (cases "k < length js")
    case False
    then show ?thesis by (simp add: ai)
  next
    case True
    then have t: "take (Suc k) js = take k js @ [js ! k]"
      by (rule take_Suc_conv_app_nth)
    show ?thesis
    proof (cases "for_loop (take k js) (cell_init g)")
      case (Pair e g')
      show ?thesis
      proof (cases e)
        case (Some err)
        with Pair show ?thesis by (simp add: ai t for_loop_snoc)
      next
        case None
        from inv [of "take k js"] Pair have "classes g' = classes_literal" by simp
        from loop_body_cases [OF this, of "js ! k"] show ?thesis
        proof (elim disjE exE conjE)
          assume "snd (loop_body (js ! k) g') = g'"
          with Pair None show ?thesis by (simp add: ai t for_loop_snoc split: prod.splits option.splits)
        next
          fix fs c
          assume "loop_body (js ! k) g' = (None, g'\<lparr>X := X g' @ [fs], y := y g' @ [c]\<rparr>)"
          with Pair None show ?thesis by (simp add: ai t for_loop_snoc)
        qed
      qed
    qed
  qed
  have "length js \<le> length (lines g)"
    by (simp add: js_def py_range_def cell_init_def)
  then have "after_iterations (length (lines g)) g = cell g"
    by (simp add: ai cell_def js_def Let_def)
  with step inv [of "take k js"] show ?thesis
    by (simp add: ai)
qed

end
